theory Spec2Isabelle
  imports Main
begin

section \<open>Go values, the store and outcomes\<close>

text \<open>
  Every error value of the package is a pointer: to an \<open>ErrorEx\<close> struct, to the
  \<open>errorString\<close> of \<open>errors.New\<close>, or to the \<open>wrapError\<close> of \<open>fmt.Errorf\<close> with
  \<open>%w\<close>. An \<open>error\<close> interface value is therefore \<open>nil\<close> or a reference into a store
  of objects. Go compares such values by pointer identity, which is equality of
  addresses here. Allocation appends an object to the store, so a new object has an
  address that no older object has. A reference to an address that holds no object
  stands for a nil pointer inside a non-nil interface: a method that reads a field
  through it panics.
\<close>

type_synonym addr = nat

datatype error = ENil | ERef addr

text \<open>Values of type \<open>interface{}\<close> that are passed as format arguments or data.\<close>

datatype val = IntV int | StrV string

record ErrorEx =
  cause :: error
  data :: "val option"
  err :: error
  txt' :: string
  fmt :: bool
  extra :: "error list"

datatype obj =
    ExObj ErrorEx
  | errorString string
  | wrapError string error

type_synonym heap = "obj list"

definition deref :: "heap \<Rightarrow> addr \<Rightarrow> obj option" where
  "deref h a = (if a < length h then Some (h ! a) else None)"

definition alloc :: "heap \<Rightarrow> obj \<Rightarrow> heap \<times> addr" where
  "alloc h ob = (h @ [ob], length h)"

text \<open>
  A call either runs out of fuel (the model of a call that does not return), panics,
  or returns.
\<close>

datatype 'a outcome = OutOfFuel | Panic | Return 'a

fun and_then :: "'a outcome \<Rightarrow> ('a \<Rightarrow> 'b outcome) \<Rightarrow> 'b outcome" where
  "and_then OutOfFuel f = OutOfFuel"
| "and_then Panic f = Panic"
| "and_then (Return x) f = f x"

section \<open>The fragment of package fmt that the code uses\<close>

text \<open>Decimal digits, as \<open>strconv.Itoa\<close> and the verb \<open>%d\<close> print an \<open>int\<close>.\<close>

definition digit_char :: "nat \<Rightarrow> char" where
  "digit_char n = ''0123456789'' ! n"

function utoa :: "nat \<Rightarrow> string" where
  "utoa n =
     (if n div 10 = 0 then [digit_char n]
      else utoa (n div 10) @ [digit_char (n mod 10)])"
  by pat_completeness auto
termination
  by (relation "measure (\<lambda>n. n)") auto

declare utoa.simps [simp del]

definition Itoa :: "int \<Rightarrow> string" where
  "Itoa i = (if 0 \<le> i then utoa (nat i) else CHR ''-'' # utoa (nat (- i)))"

text \<open>The \<open>type=value\<close> text that fmt prints for an operand it cannot format.\<close>

fun type_value :: "val \<Rightarrow> string" where
  "type_value (IntV i) = ''int='' @ Itoa i"
| "type_value (StrV s) = ''string='' @ s"

text \<open>
  One operand under one verb. The model covers the verbs \<open>%d\<close>, \<open>%s\<close> and \<open>%v\<close> on
  \<open>int\<close> and \<open>string\<close> operands, and \<open>%%\<close>, without flags, width or precision; any
  other verb is printed the way fmt prints a verb that the operand does not support.
\<close>

fun fmt_verb :: "char \<Rightarrow> val \<Rightarrow> string" where
  "fmt_verb v (IntV i) =
     (if v = CHR ''d'' \<or> v = CHR ''v'' then Itoa i
      else ''%!'' @ [v] @ ''('' @ type_value (IntV i) @ '')'')"
| "fmt_verb v (StrV s) =
     (if v = CHR ''s'' \<or> v = CHR ''v'' then s
      else ''%!'' @ [v] @ ''('' @ type_value (StrV s) @ '')'')"

fun extra_args :: "val list \<Rightarrow> string" where
  "extra_args [] = []"
| "extra_args [a] = type_value a"
| "extra_args (a # b # as) = type_value a @ '', '' @ extra_args (b # as)"

fun Sprintf :: "string \<Rightarrow> val list \<Rightarrow> string" where
  "Sprintf [] args = (if args = [] then [] else ''%!(EXTRA '' @ extra_args args @ '')'')"
| "Sprintf [c] args =
     (if c = CHR ''%'' then ''%!(NOVERB)'' @ Sprintf [] args else c # Sprintf [] args)"
| "Sprintf (c # v # rest) args =
     (if c \<noteq> CHR ''%'' then c # Sprintf (v # rest) args
      else if v = CHR ''%'' then CHR ''%'' # Sprintf rest args
      else (case args of
              [] \<Rightarrow> ''%!'' @ [v] @ ''(MISSING)'' @ Sprintf rest []
            | a # as \<Rightarrow> fmt_verb v a @ Sprintf rest as))"

text \<open>\<open>fmt.Sprint\<close>: a space goes between two operands when neither is a string.\<close>

fun is_string :: "val \<Rightarrow> bool" where
  "is_string (StrV s) = True"
| "is_string (IntV i) = False"

fun Sprint :: "val list \<Rightarrow> string" where
  "Sprint [] = []"
| "Sprint [a] = fmt_verb (CHR ''v'') a"
| "Sprint (a # b # as) =
     fmt_verb (CHR ''v'') a
       @ (if \<not> is_string a \<and> \<not> is_string b then '' '' else [])
       @ Sprint (b # as)"

text \<open>
  The verb \<open>%v\<close> (and \<open>%w\<close>) on an error: a nil interface prints as \<open><nil>\<close>, any
  other error through its \<open>Error\<close> method. fmt recovers a panic of that method: it
  prints \<open><nil>\<close> when the receiver is a nil pointer and a panic note otherwise. A
  call that does not return is not recovered.
\<close>

definition panic_note :: string where
  "panic_note =
     ''%!v(PANIC=Error method: runtime error: invalid memory address or nil pointer dereference)''"

definition fmt_v :: "(error \<Rightarrow> string outcome) \<Rightarrow> heap \<Rightarrow> error \<Rightarrow> string outcome" where
  "fmt_v rec h e =
     (case e of
        ENil \<Rightarrow> Return ''<nil>''
      | ERef a \<Rightarrow>
          (case rec e of
             OutOfFuel \<Rightarrow> OutOfFuel
           | Panic \<Rightarrow> Return (if deref h a = None then ''<nil>'' else panic_note)
           | Return s \<Rightarrow> Return s))"

section \<open>errorex.go: construction and derivation\<close>

text \<open>
  Every constructor allocates one struct. \<open>NewFormat\<close> and \<open>WrapFormat\<close> set \<open>fmt\<close> on
  the struct they have just allocated, before anything else can see it, so they
  allocate it with \<open>fmt\<close> set. A method that does not read a field of its receiver
  (\<open>Wrap\<close>, \<open>WrapCause\<close>, \<open>WrapData\<close>) returns for every receiver.
\<close>

definition New :: "heap \<Rightarrow> string \<Rightarrow> heap \<times> addr" where
  "New h message =
     alloc h (ExObj \<lparr>cause = ENil, data = None, err = ENil, txt' = message,
                     fmt = False, extra = []\<rparr>)"

definition NewFormat :: "heap \<Rightarrow> string \<Rightarrow> heap \<times> addr" where
  "NewFormat h format =
     alloc h (ExObj \<lparr>cause = ENil, data = None, err = ENil, txt' = format,
                     fmt = True, extra = []\<rparr>)"

definition Wrap :: "heap \<Rightarrow> addr \<Rightarrow> string \<Rightarrow> heap \<times> addr" where
  "Wrap h ee message =
     alloc h (ExObj \<lparr>cause = ENil, data = None, err = ERef ee, txt' = message,
                     fmt = False, extra = []\<rparr>)"

definition WrapFormat :: "heap \<Rightarrow> addr \<Rightarrow> string \<Rightarrow> heap \<times> addr" where
  "WrapFormat h ee format =
     alloc h (ExObj \<lparr>cause = ENil, data = None, err = ERef ee, txt' = format,
                     fmt = True, extra = []\<rparr>)"

text \<open>The remaining derivations. Those that format read the receiver's text.\<close>

definition WrapArgs :: "heap \<Rightarrow> addr \<Rightarrow> val list \<Rightarrow> (heap \<times> addr) outcome" where
  "WrapArgs h ee args =
     (case deref h ee of
        Some (ExObj x) \<Rightarrow> Return (Wrap h ee (Sprintf (txt' x) args))
      | _ \<Rightarrow> Panic)"

definition WrapCause :: "heap \<Rightarrow> addr \<Rightarrow> string \<Rightarrow> error \<Rightarrow> heap \<times> addr" where
  "WrapCause h ee message e =
     alloc h (ExObj \<lparr>cause = e, data = None, err = ERef ee, txt' = message,
                     fmt = False, extra = []\<rparr>)"


definition WrapData :: "heap \<Rightarrow> addr \<Rightarrow> string \<Rightarrow> val option \<Rightarrow> heap \<times> addr" where
  "WrapData h ee message d =
     alloc h (ExObj \<lparr>cause = ENil, data = d, err = ERef ee, txt' = message,
                     fmt = False, extra = []\<rparr>)"


text \<open>The accessors read a field of the receiver; \<open>Extra\<close> appends in place.\<close>

definition Cause :: "heap \<Rightarrow> addr \<Rightarrow> error outcome" where
  "Cause h ee = (case deref h ee of Some (ExObj x) \<Rightarrow> Return (cause x) | _ \<Rightarrow> Panic)"




definition Extra :: "heap \<Rightarrow> addr \<Rightarrow> error \<Rightarrow> heap outcome" where
  "Extra h ee e =
     (case deref h ee of
        Some (ExObj x) \<Rightarrow> Return (h[ee := ExObj (x\<lparr>extra := extra x @ [e]\<rparr>)])
      | _ \<Rightarrow> Panic)"

section \<open>errorex.go: rendering\<close>

text \<open>Lines 60 to 66 of \<open>Error\<close>: the base message and the node's own cause.\<close>

definition base_message ::
  "(error \<Rightarrow> string outcome) \<Rightarrow> heap \<Rightarrow> ErrorEx \<Rightarrow> string outcome" where
  "base_message rec h ee =
     (let message = (if fmt ee then [] else txt' ee) in
      if cause ee \<noteq> ENil
      then and_then (fmt_v rec h (cause ee)) (\<lambda>c. Return (message @ '' < '' @ c))
      else Return message)"

text \<open>
  Lines 68 to 78: the loop over the wrapped chain. The loop variable is the error
  \<open>e\<close> under the type assertion; the loop ends when \<open>e\<close> is nil or not an
  \<open>ErrorEx\<close>.
\<close>

fun build_stack ::
  "(error \<Rightarrow> string outcome) \<Rightarrow> nat \<Rightarrow> heap \<Rightarrow> error \<Rightarrow> string list
     \<Rightarrow> string list outcome" where
  "build_stack rec 0 h e stack = OutOfFuel"
| "build_stack rec (Suc k) h ENil stack = Return stack"
| "build_stack rec (Suc k) h (ERef a) stack =
     (case deref h a of
        None \<Rightarrow> Panic
      | Some (errorString s) \<Rightarrow> Return stack
      | Some (wrapError s w) \<Rightarrow> Return stack
      | Some (ExObj eex) \<Rightarrow>
          (if cause eex \<noteq> ENil
           then and_then (rec (cause eex))
                  (\<lambda>c. build_stack rec k h (err eex) ((stack @ [c]) @ [txt' eex]))
           else if fmt eex then build_stack rec k h (err eex) stack
           else build_stack rec k h (err eex) (stack @ [txt' eex])))"

text \<open>Lines 86 to 93: the inner loop that pops the stack from its end.\<close>

function stack_loop :: "string list \<Rightarrow> string \<Rightarrow> string" where
  "stack_loop stack msg =
     (if length stack > 0
      then (if length stack = 1
            then stack_loop (butlast stack) (msg @ '' '' @ last stack)
            else stack_loop (butlast stack) (msg @ '' '' @ last stack @ '';''))
      else msg)"
  by pat_completeness auto
termination
  by (relation "measure (\<lambda>(stack, msg). length stack)") auto

declare stack_loop.simps [simp del]

text \<open>Lines 80 to 97: formatting the stack in front of the message.\<close>

definition format_stack :: "string list \<Rightarrow> string \<Rightarrow> string" where
  "format_stack stack message =
     (if length stack > 0
      then (if length stack = 1
            then stack ! 0 @ '': '' @ message
            else stack_loop (butlast stack) (last stack @ '':'') @ '' > '' @ message)
      else message)"

text \<open>Lines 99 to 103: the extra errors, each rendered by its own \<open>Error\<close> method.\<close>

fun append_extra ::
  "(error \<Rightarrow> string outcome) \<Rightarrow> error list \<Rightarrow> string \<Rightarrow> string outcome" where
  "append_extra rec [] message = Return message"
| "append_extra rec (ex # exs) message =
     and_then (rec ex) (\<lambda>s. append_extra rec exs (message @ ''; '' @ s))"

definition ErrorEx_Error ::
  "(error \<Rightarrow> string outcome) \<Rightarrow> nat \<Rightarrow> heap \<Rightarrow> ErrorEx \<Rightarrow> string outcome" where
  "ErrorEx_Error rec k h ee =
     and_then (base_message rec h ee) (\<lambda>message.
     and_then (build_stack rec k h (err ee) []) (\<lambda>stack.
     append_extra rec (extra ee) (format_stack stack message)))"

text \<open>
  The method call \<open>e.Error()\<close> on an interface value: a nil interface panics, the
  native errors return their text, an \<open>ErrorEx\<close> runs the method above. The fuel
  bounds the depth of nested calls and the number of loop iterations.
\<close>

fun Error :: "nat \<Rightarrow> heap \<Rightarrow> error \<Rightarrow> string outcome" where
  "Error 0 h e = OutOfFuel"
| "Error (Suc k) h ENil = Panic"
| "Error (Suc k) h (ERef a) =
     (case deref h a of
        None \<Rightarrow> Panic
      | Some (errorString s) \<Rightarrow> Return s
      | Some (wrapError s w) \<Rightarrow> Return s
      | Some (ExObj ee) \<Rightarrow> ErrorEx_Error (Error k h) k h ee)"

section \<open>errorex.go: identity\<close>

text \<open>The method \<open>is\<close>: the receiver itself, then its wrapped error, then the cause.\<close>

definition ErrorEx_is ::
  "(error \<Rightarrow> error \<Rightarrow> bool outcome) \<Rightarrow> ErrorEx \<Rightarrow> error \<Rightarrow> error \<Rightarrow> error
     \<Rightarrow> bool outcome" where
  "ErrorEx_is rec ee self target c =
     (if self = target then Return True
      else and_then (rec (err ee) target)
             (\<lambda>b. if b then Return True else rec c target))"

text \<open>
  \<open>errors.Is\<close> of the standard library (Go 1.13): a nil target matches a nil error
  only; otherwise the loop compares the error with the target, asks the error's own
  \<open>Is\<close> method when it has one, and unwraps.
\<close>

fun errors_Is :: "nat \<Rightarrow> heap \<Rightarrow> error \<Rightarrow> error \<Rightarrow> bool outcome" where
  "errors_Is 0 h e target = OutOfFuel"
| "errors_Is (Suc k) h e target =
     (if target = ENil then Return (e = ENil)
      else if e = target then Return True
      else (case e of
              ENil \<Rightarrow> Return False
            | ERef a \<Rightarrow>
                (case deref h a of
                   None \<Rightarrow> Panic
                 | Some (errorString s) \<Rightarrow> Return False
                 | Some (wrapError s w) \<Rightarrow>
                     (if w = ENil then Return False else errors_Is k h w target)
                 | Some (ExObj ee) \<Rightarrow>
                     and_then (ErrorEx_is (errors_Is k h) ee (ERef a) target (cause ee))
                       (\<lambda>b. if b then Return True
                            else if err ee = ENil then Return False
                            else errors_Is k h (err ee) target))))"

definition Is :: "nat \<Rightarrow> heap \<Rightarrow> addr \<Rightarrow> error \<Rightarrow> bool outcome" where
  "Is k h ee target =
     (case deref h ee of
        Some (ExObj x) \<Rightarrow> ErrorEx_is (errors_Is k h) x (ERef ee) target (cause x)
      | _ \<Rightarrow> Panic)"

section \<open>wrap.go\<close>

text \<open>
  \<open>fmt.Errorf\<close> with a \<open>%w\<close> verb allocates a \<open>wrapError\<close> that holds the formatted
  message and the wrapped error.
\<close>

definition new_wrapError :: "heap \<Rightarrow> string \<Rightarrow> error \<Rightarrow> heap \<times> error" where
  "new_wrapError h msg e = (case alloc h (wrapError msg e) of (h', a) \<Rightarrow> (h', ERef a))"

text \<open>The package functions \<open>Wrap\<close> and \<open>WrapCause\<close> of wrap.go.\<close>

definition pkg_Wrap :: "nat \<Rightarrow> heap \<Rightarrow> error \<Rightarrow> string \<Rightarrow> (heap \<times> error) outcome" where
  "pkg_Wrap k h e message =
     (if e = ENil then Return (h, ENil)
      else if message = [] then Return (h, e)
      else and_then (fmt_v (Error k h) h e)
             (\<lambda>s. Return (new_wrapError h (s @ '': '' @ message) e)))"

definition pkg_WrapCause ::
  "nat \<Rightarrow> heap \<Rightarrow> error \<Rightarrow> error \<Rightarrow> string \<Rightarrow> (heap \<times> error) outcome" where
  "pkg_WrapCause k h e c message =
     (if e = ENil then Return (h, ENil)
      else if c = ENil
      then (if message = [] then Return (h, e) else pkg_Wrap k h e message)
      else if message = []
      then and_then (fmt_v (Error k h) h e) (\<lambda>s.
           and_then (fmt_v (Error k h) h c) (\<lambda>t.
           Return (new_wrapError h (s @ '': '' @ t) e)))
      else and_then (fmt_v (Error k h) h e) (\<lambda>s.
           and_then (fmt_v (Error k h) h c) (\<lambda>t.
           Return (new_wrapError h (s @ '': '' @ message @ '': '' @ t) e))))"

text \<open>\<open>errors.Unwrap\<close>: the result of the error's \<open>Unwrap\<close> method, nil without one.\<close>

definition errors_Unwrap :: "heap \<Rightarrow> error \<Rightarrow> error outcome" where
  "errors_Unwrap h e =
     (case e of
        ENil \<Rightarrow> Return ENil
      | ERef a \<Rightarrow>
          (case deref h a of
             None \<Rightarrow> Panic
           | Some (errorString s) \<Rightarrow> Return ENil
           | Some (wrapError s w) \<Rightarrow> Return w
           | Some (ExObj ee) \<Rightarrow> Return (err ee)))"

text \<open>
  \<open>wraps j res msg e\<close>: the call returned a non-nil error whose \<open>Error\<close> method returns
  \<open>msg\<close> (with fuel \<open>Suc j\<close>) and that \<open>errors.Unwrap\<close> unwraps to \<open>e\<close>.
\<close>

definition wraps :: "nat \<Rightarrow> (heap \<times> error) outcome \<Rightarrow> string \<Rightarrow> error \<Rightarrow> bool" where
  "wraps j res msg e =
     (case res of
        Return (h', r) \<Rightarrow>
          r \<noteq> ENil \<and> Error (Suc j) h' r = Return msg \<and> errors_Unwrap h' r = Return e
      | _ \<Rightarrow> False)"

section \<open>The revision with autoformat and extrastring (src/unnamed/part\_004)\<close>

text \<open>
  The repository holds other revisions of errorex.go. The one modelled here is the
  first file of src/unnamed/part\_004, the only one with \<open>autoformat\<close> and
  \<open>extrastring\<close>. It differs from errorex.go in the text of a derivation with
  arguments, in the separator of the extras, in the base message of a node with an
  empty text and in the walk over the wrapped chain. Its functions carry the suffix
  \<open>_p4\<close> where the name is taken. The remaining revisions (the second file of
  part\_004, part\_005) walk the chain and format with arguments as errorex.go does.
\<close>

definition autoformat :: "ErrorEx \<Rightarrow> val list \<Rightarrow> string" where
  "autoformat ee args = (if fmt ee then Sprintf (txt' ee) args else Sprint args)"

definition WrapArgs_p4 :: "heap \<Rightarrow> addr \<Rightarrow> val list \<Rightarrow> (heap \<times> addr) outcome" where
  "WrapArgs_p4 h ee args =
     (case deref h ee of
        Some (ExObj x) \<Rightarrow> Return (Wrap h ee (autoformat x args))
      | _ \<Rightarrow> Panic)"

fun extrastring ::
  "(error \<Rightarrow> string outcome) \<Rightarrow> error list \<Rightarrow> string \<Rightarrow> string outcome" where
  "extrastring rec [] message = Return message"
| "extrastring rec (ex # exs) message =
     and_then (rec ex) (\<lambda>s. extrastring rec exs (message @ '' + '' @ s))"

definition base_message_p4 ::
  "(error \<Rightarrow> string outcome) \<Rightarrow> heap \<Rightarrow> ErrorEx \<Rightarrow> string outcome" where
  "base_message_p4 rec h ee =
     and_then (if txt' ee = [] \<and> err ee \<noteq> ENil then rec (err ee) else Return [])
       (\<lambda>m0. let message = (if \<not> fmt ee then txt' ee else m0) in
             if cause ee \<noteq> ENil
             then and_then (fmt_v rec h (cause ee)) (\<lambda>c. Return (message @ '' < '' @ c))
             else Return message)"

fun build_stack_p4 ::
  "(error \<Rightarrow> string outcome) \<Rightarrow> nat \<Rightarrow> heap \<Rightarrow> error \<Rightarrow> string list
     \<Rightarrow> string list outcome" where
  "build_stack_p4 rec 0 h e stack = OutOfFuel"
| "build_stack_p4 rec (Suc k) h ENil stack = Return stack"
| "build_stack_p4 rec (Suc k) h (ERef a) stack =
     (case deref h a of
        None \<Rightarrow> Panic
      | Some (errorString s) \<Rightarrow> Return stack
      | Some (wrapError s w) \<Rightarrow> Return stack
      | Some (ExObj eex) \<Rightarrow>
          (if fmt eex \<or> length (txt' eex) = 0 then build_stack_p4 rec k h (err eex) stack
           else and_then (extrastring rec (extra eex) []) (\<lambda>x.
                let stack1 = stack @ [txt' eex @ x] in
                if cause eex \<noteq> ENil
                then and_then (rec (cause eex)) (\<lambda>c.
                       build_stack_p4 rec k h (err eex)
                         (stack1[length stack1 - 1 :=
                                   stack1 ! (length stack1 - 1) @ '' < '' @ c]))
                else build_stack_p4 rec k h (err eex) stack1)))"

definition format_stack_p4 :: "string list \<Rightarrow> string \<Rightarrow> string" where
  "format_stack_p4 stack message =
     (if length stack > 0
      then (if length stack = 1
            then (if message = [] then stack ! 0 else stack ! 0 @ '': '' @ message)
            else stack_loop (butlast stack) (last stack @ '':'') @ '' > '' @ message)
      else message)"

definition ErrorEx_Error_p4 ::
  "(error \<Rightarrow> string outcome) \<Rightarrow> nat \<Rightarrow> heap \<Rightarrow> ErrorEx \<Rightarrow> string outcome" where
  "ErrorEx_Error_p4 rec k h ee =
     and_then (base_message_p4 rec h ee) (\<lambda>message.
     and_then (build_stack_p4 rec k h (err ee) []) (\<lambda>stack.
     and_then (extrastring rec (extra ee) []) (\<lambda>x.
     Return (format_stack_p4 stack message @ x))))"

fun Error_p4 :: "nat \<Rightarrow> heap \<Rightarrow> error \<Rightarrow> string outcome" where
  "Error_p4 0 h e = OutOfFuel"
| "Error_p4 (Suc k) h ENil = Panic"
| "Error_p4 (Suc k) h (ERef a) =
     (case deref h a of
        None \<Rightarrow> Panic
      | Some (errorString s) \<Rightarrow> Return s
      | Some (wrapError s w) \<Rightarrow> Return s
      | Some (ExObj ee) \<Rightarrow> ErrorEx_Error_p4 (Error_p4 k h) k h ee)"

section \<open>The walk over the wrapped chain, entry by entry\<close>

text \<open>
  A walk that collects, for each \<open>ErrorEx\<close> of the wrapped chain from the nearest on,
  the stack entries that this ancestor contributes, given by \<open>own\<close>.
\<close>

fun walk_entries ::
  "(ErrorEx \<Rightarrow> string list outcome) \<Rightarrow> nat \<Rightarrow> heap \<Rightarrow> error \<Rightarrow> string list outcome" where
  "walk_entries own 0 h e = OutOfFuel"
| "walk_entries own (Suc k) h ENil = Return []"
| "walk_entries own (Suc k) h (ERef a) =
     (case deref h a of
        None \<Rightarrow> Panic
      | Some (errorString s) \<Rightarrow> Return []
      | Some (wrapError s w) \<Rightarrow> Return []
      | Some (ExObj eex) \<Rightarrow>
          and_then (own eex) (\<lambda>es.
          and_then (walk_entries own k h (err eex)) (\<lambda>rest. Return (es @ rest))))"

text \<open>
  What an ancestor contributes in errorex.go: the rendered cause and then the text,
  as two entries, when it has a cause; nothing when it is a template without a
  cause; its text otherwise. The doc comment of \<open>Error\<close> announces causes after the
  prefix \<open><\<close>, as the head's own cause is printed; the cause of an ancestor gets no
  such mark here.
\<close>

definition own_entries :: "(error \<Rightarrow> string outcome) \<Rightarrow> ErrorEx \<Rightarrow> string list outcome" where
  "own_entries rec eex =
     (if cause eex \<noteq> ENil then and_then (rec (cause eex)) (\<lambda>c. Return [c, txt' eex])
      else if fmt eex then Return []
      else Return [txt' eex])"

text \<open>
  What an ancestor contributes according to the specification: nothing when it is a
  template or its text is empty; otherwise one entry, its stacked text (the text
  followed by its extras, as \<open>extrastring\<close> renders them) with \<open>" < "\<close> and the
  rendered cause appended when it has a cause.
\<close>

definition claimed_entry :: "(error \<Rightarrow> string outcome) \<Rightarrow> ErrorEx \<Rightarrow> string list outcome" where
  "claimed_entry rec eex =
     (if fmt eex \<or> txt' eex = [] then Return []
      else and_then (extrastring rec (extra eex) []) (\<lambda>x.
           if cause eex \<noteq> ENil
           then and_then (rec (cause eex)) (\<lambda>c. Return [(txt' eex @ x) @ '' < '' @ c])
           else Return [txt' eex @ x]))"

text \<open>
  \<open>causeless k h e\<close>: none of the first \<open>k\<close> nodes of the wrapped chain from \<open>e\<close> on
  has a cause. What such an ancestor contributes in errorex.go is \<open>kept_text\<close>:
  nothing when it is a template, its text otherwise, empty or not.
\<close>

fun causeless :: "nat \<Rightarrow> heap \<Rightarrow> error \<Rightarrow> bool" where
  "causeless 0 h e = True"
| "causeless (Suc k) h ENil = True"
| "causeless (Suc k) h (ERef a) =
     (case deref h a of
        Some (ExObj eex) \<Rightarrow> cause eex = ENil \<and> causeless k h (err eex)
      | _ \<Rightarrow> True)"

definition kept_text :: "ErrorEx \<Rightarrow> string list outcome" where
  "kept_text eex = Return (if fmt eex then [] else [txt' eex])"

section \<open>Ancestry and well-formed stores\<close>

text \<open>
  \<open>ancestor h a b\<close>: the object at \<open>b\<close> is the object at \<open>a\<close> itself or is reached from
  it along wrapped links (\<open>err\<close>, or the wrapped error of a \<open>wrapError\<close>) and cause
  links.
\<close>

inductive ancestor :: "heap \<Rightarrow> addr \<Rightarrow> addr \<Rightarrow> bool" where
  self: "ancestor h a a"
| wrapped: "deref h a = Some (ExObj ee) \<Longrightarrow> err ee = ERef c \<Longrightarrow> ancestor h c b
            \<Longrightarrow> ancestor h a b"
| caused: "deref h a = Some (ExObj ee) \<Longrightarrow> cause ee = ERef c \<Longrightarrow> ancestor h c b
            \<Longrightarrow> ancestor h a b"
| unwrapped: "deref h a = Some (wrapError s (ERef c)) \<Longrightarrow> ancestor h c b
            \<Longrightarrow> ancestor h a b"

text \<open>\<open>reaches h e b\<close>: the error \<open>e\<close> is a reference to an object with ancestor \<open>b\<close>.\<close>

definition reaches :: "heap \<Rightarrow> error \<Rightarrow> addr \<Rightarrow> bool" where
  "reaches h e b = (case e of ENil \<Rightarrow> False | ERef c \<Rightarrow> ancestor h c b)"

text \<open>
  A reference stored in the object at \<open>a\<close> is in order when it is nil or points to an
  object of the store of smaller rank. Every constructor stores references to objects
  that exist already, so the wrapped and cause links of a store built by the package
  are in order for the rank \<open>\<lambda>a. a\<close>. The extras are not links: \<open>Extra\<close> stores
  any error, also nil, and also an error that reaches the node itself.
\<close>

definition edge_ok :: "(addr \<Rightarrow> nat) \<Rightarrow> heap \<Rightarrow> addr \<Rightarrow> error \<Rightarrow> bool" where
  "edge_ok r h a e = (case e of ENil \<Rightarrow> True | ERef b \<Rightarrow> b < length h \<and> r b < r a)"

definition links_ok :: "(addr \<Rightarrow> nat) \<Rightarrow> heap \<Rightarrow> bool" where
  "links_ok r h =
     (\<forall>a < length h.
        (case h ! a of
           ExObj ee \<Rightarrow> edge_ok r h a (err ee) \<and> edge_ok r h a (cause ee)
         | errorString s \<Rightarrow> True
         | wrapError s w \<Rightarrow> edge_ok r h a w))"

section \<open>What a rendering reads\<close>


section \<open>Wrap chains of any length\<close>

text \<open>
  \<open>wrap_chain h b ss\<close>: the store and the head of
  \<open>New(b).Wrap(s1).Wrap(s2)...Wrap(sn)\<close> for \<open>ss = [s1, ..., sn]\<close>, built in the
  store \<open>h\<close>.
\<close>

fun wrap_all :: "heap \<times> addr \<Rightarrow> string list \<Rightarrow> heap \<times> addr" where
  "wrap_all hn [] = hn"
| "wrap_all hn (s # ss) = wrap_all (Wrap (fst hn) (snd hn) s) ss"

definition wrap_chain :: "heap \<Rightarrow> string \<Rightarrow> string list \<Rightarrow> heap \<times> addr" where
  "wrap_chain h b ss = wrap_all (New h b) ss"

text \<open>
  The rendering that the specification gives for such a chain: the root alone; the
  root, \<open>": "\<close> and the text of the head after one \<open>Wrap\<close>; otherwise the root,
  \<open>": "\<close>, the middle texts oldest first and joined with \<open>"; "\<close>, then \<open>" > "\<close> and the
  text of the head.
\<close>

fun join_semicolon :: "string list \<Rightarrow> string" where
  "join_semicolon [] = []"
| "join_semicolon [x] = x"
| "join_semicolon (x # y # ys) = x @ ''; '' @ join_semicolon (y # ys)"

definition render_chain :: "string \<Rightarrow> string list \<Rightarrow> string" where
  "render_chain b ss =
     (if ss = [] then b
      else if butlast ss = [] then b @ '': '' @ last ss
      else b @ '': '' @ join_semicolon (butlast ss) @ '' > '' @ last ss)"

text \<open>
  \<open>plain_chain h n ts\<close>: the node at \<open>n\<close> and its wrapped ancestors are nodes as \<open>New\<close>
  and \<open>Wrap\<close> allocate them, and \<open>ts\<close> lists their texts from \<open>n\<close> to the root.
\<close>

inductive plain_chain :: "heap \<Rightarrow> addr \<Rightarrow> string list \<Rightarrow> bool" where
  root: "deref h n = Some (ExObj \<lparr>cause = ENil, data = None, err = ENil, txt' = b,
                                    fmt = False, extra = []\<rparr>)
         \<Longrightarrow> plain_chain h n [b]"
| step: "deref h n = Some (ExObj \<lparr>cause = ENil, data = None, err = ERef m, txt' = s,
                                    fmt = False, extra = []\<rparr>)
         \<Longrightarrow> plain_chain h m ts \<Longrightarrow> plain_chain h n (s # ts)"

section \<open>Stores used as examples\<close>

definition three_ancestors :: "heap \<times> addr" where
  "three_ancestors =
     (let (h0, n0) = New [] ''p3'';
          (h1, n1) = Wrap h0 n0 ''p2'';
          (h2, n2) = Wrap h1 n1 ''p1''
      in Wrap h2 n2 ''m'')"

definition wrap_pair :: heap where
  "wrap_pair = fst (Wrap (fst (New [] ''base'')) 0 ''node'')"

text \<open>
  The store of \<open>base := New("X")\<close>, \<open>mid := base.Wrap("Y")\<close>, \<open>leaf := mid.Wrap("Z")\<close>,
  \<open>cbase := New("C")\<close>, \<open>causeChain := cbase.Wrap("D")\<close> and
  \<open>leaf2 := mid.WrapCause("E", causeChain)\<close>, at the addresses 0 to 5.
\<close>

definition identity_store :: heap where
  "identity_store =
     (let (h0, base) = New [] ''X'';
          (h1, mid) = Wrap h0 base ''Y'';
          (h2, leaf) = Wrap h1 mid ''Z'';
          (h3, cbase) = New h2 ''C'';
          (h4, causeChain) = Wrap h3 cbase ''D''
      in fst (WrapCause h4 mid ''E'' (ERef causeChain)))"

text \<open>
  The store of \<open>base := New("base")\<close>, \<open>c := New("cause")\<close>,
  \<open>mid := base.WrapCause("mid", c)\<close>, \<open>leaf := mid.Wrap("leaf")\<close>, and of
  \<open>root := New("root")\<close>, \<open>blank := root.Wrap("")\<close>, \<open>x := blank.Wrap("x")\<close>, at the
  addresses 0 to 6.
\<close>

definition cause_store :: heap where
  "cause_store =
     (let (h0, base) = New [] ''base'';
          (h1, c) = New h0 ''cause'';
          (h2, mid) = WrapCause h1 base ''mid'' (ERef c);
          (h3, leaf) = Wrap h2 mid ''leaf'';
          (h4, root) = New h3 ''root'';
          (h5, blank) = Wrap h4 root []
      in fst (Wrap h5 blank ''x''))"

text \<open>The store of \<open>New("%s error")\<close>, a node that is not a template.\<close>

definition plain_store :: heap where
  "plain_store = fst (New [] ''%s error'')"

text \<open>The store of \<open>ErrTest = errors.New("test")\<close> and \<open>ErrCause = errors.New("cause")\<close>.\<close>

definition native_store :: heap where
  "native_store = [errorString ''test'', errorString ''cause'']"


definition self_extra_store :: heap where
  "self_extra_store =
     [ExObj \<lparr>cause = ENil, data = None, err = ENil, txt' = ''base'', fmt = False,
             extra = [ERef 0]\<rparr>]"

text \<open>
  The store of \<open>base := New("base")\<close> and \<open>leaf := base.Wrap("leaf")\<close> after
  \<open>base.Extra(leaf)\<close>: the extra of \<open>base\<close> is a node that wraps \<open>base\<close>.
\<close>

definition extra_leaf_store :: heap where
  "extra_leaf_store =
     [ExObj \<lparr>cause = ENil, data = None, err = ENil, txt' = ''base'', fmt = False,
             extra = [ERef 1]\<rparr>,
      ExObj \<lparr>cause = ENil, data = None, err = ERef 0, txt' = ''leaf'', fmt = False,
             extra = []\<rparr>]"

text \<open>
  The store of \<open>base := New("base")\<close> after \<open>base.Extra(nil)\<close> and
  \<open>leaf := base.Wrap("leaf")\<close>.
\<close>

definition ancestor_nil_extra_store :: heap where
  "ancestor_nil_extra_store =
     [ExObj \<lparr>cause = ENil, data = None, err = ENil, txt' = ''base'', fmt = False,
             extra = [ENil]\<rparr>,
      ExObj \<lparr>cause = ENil, data = None, err = ERef 0, txt' = ''leaf'', fmt = False,
             extra = []\<rparr>]"

section \<open>Evaluation lemmas\<close>

lemma deref_append_new [simp]: "deref (h @ xs) (length h + i) = deref xs i"
  by (simp add: deref_def)

lemma deref_append_new0 [simp]: "deref (h @ x # xs) (length h) = Some x"
  by (simp add: deref_def)

lemma deref_append_new1 [simp]: "deref (h @ xs) (Suc (length h + i)) = deref xs (Suc i)"
  using deref_append_new [of h xs "Suc i"] by simp

lemma deref_append_new2 [simp]: "deref (h @ xs) (Suc (length h)) = deref xs (Suc 0)"
  using deref_append_new [of h xs "Suc 0"] by simp

lemma deref_Cons_0 [simp]: "deref (x # xs) 0 = Some x"
  by (simp add: deref_def)

lemma deref_Cons_Suc [simp]: "deref (x # xs) (Suc i) = deref xs i"
  by (simp add: deref_def)

lemma deref_Nil [simp]: "deref [] i = None"
  by (simp add: deref_def)

lemma stack_loop_Nil [simp]: "stack_loop [] msg = msg"
  by (simp add: stack_loop.simps)

lemma stack_loop_single [simp]: "stack_loop [x] msg = msg @ '' '' @ x"
  by (simp add: stack_loop.simps [of "[x]"])

lemma stack_loop_snoc:
  "stack_loop ((y # ys) @ [x]) msg = stack_loop (y # ys) (msg @ '' '' @ x @ '';'')"
  by (subst stack_loop.simps) simp

text \<open>The loop in closed form: every entry but the first gets a semicolon.\<close>

lemma stack_loop_Cons [simp]:
  "stack_loop (x # xs) msg =
     foldl (\<lambda>m y. m @ '' '' @ y @ '';'') msg (rev xs) @ '' '' @ x"
proof (induction xs arbitrary: msg rule: rev_induct)
  case Nil
  show ?case by simp
next
  case (snoc y ys)
  have "stack_loop (x # ys @ [y]) msg = stack_loop (x # ys) (msg @ '' '' @ y @ '';'')"
    using stack_loop_snoc [of x ys y msg] by simp
  then show ?case by (simp add: snoc.IH)
qed

section \<open>Outcomes\<close>

lemma and_then_Return_eq:
  "and_then m f = Return y \<longleftrightarrow> (\<exists>x. m = Return x \<and> f x = Return y)"
  by (cases m) auto

lemma and_then_assoc: "and_then (and_then m f) g = and_then m (\<lambda>x. and_then (f x) g)"
  by (cases m) auto

lemma and_then_Return_right [simp]: "and_then m Return = m"
  by (cases m) auto

lemma deref_update:
  "deref (h[n := ob]) a = (if a = n \<and> n < length h then Some ob else deref h a)"
  by (simp add: deref_def)

lemma deref_Some_length: "deref h a = Some ob \<Longrightarrow> a < length h"
  by (simp add: deref_def split: if_splits)

lemma deref_append_old: "a < length h \<Longrightarrow> deref (h @ xs) a = deref h a"
  by (simp add: deref_def nth_append)

section \<open>Rendering of plain wrap chains\<close>

lemma plain_chain_append:
  "plain_chain h n ts \<Longrightarrow> plain_chain (h @ xs) n ts"
proof (induction rule: plain_chain.induct)
  case (root h n b)
  then have "n < length h" by (rule deref_Some_length)
  with root show ?case
    by (intro plain_chain.root) (simp add: deref_append_old)
next
  case (step h n m s ts)
  then have "n < length h" by (auto dest: deref_Some_length)
  with step show ?case
    by (intro plain_chain.step [of _ _ m]) (simp_all add: deref_append_old)
qed

lemma plain_chain_wrap_all:
  "plain_chain (fst hn) (snd hn) ts
     \<Longrightarrow> plain_chain (fst (wrap_all hn ss)) (snd (wrap_all hn ss)) (rev ss @ ts)"
proof (induction ss arbitrary: hn ts)
  case Nil
  then show ?case by simp
next
  case (Cons s ss)
  let ?hn' = "Wrap (fst hn) (snd hn) s"
  have "plain_chain (fst ?hn') (snd ?hn') (s # ts)"
    using plain_chain_append [OF Cons.prems, of "[ExObj \<lparr>cause = ENil, data = None,
        err = ERef (snd hn), txt' = s, fmt = False, extra = []\<rparr>]"]
    by (intro plain_chain.step [of _ _ "snd hn"]) (simp_all add: Wrap_def alloc_def)
  from Cons.IH [OF this] show ?case by simp
qed

lemma plain_chain_wrap_chain:
  "plain_chain (fst (wrap_chain h b ss)) (snd (wrap_chain h b ss)) (rev ss @ [b])"
  unfolding wrap_chain_def
  by (rule plain_chain_wrap_all, rule plain_chain.root) (simp add: New_def alloc_def)

text \<open>The walk from a plain node pushes the texts of the chain, nearest first.\<close>

lemma build_stack_plain_chain:
  "plain_chain h n ts \<Longrightarrow> length ts < k
     \<Longrightarrow> build_stack rec k h (ERef n) stack = Return (stack @ ts)"
proof (induction arbitrary: k stack rule: plain_chain.induct)
  case (root h n b)
  then obtain k' where "k = Suc (Suc k')" by (cases k; cases "k - 1") auto
  with root show ?case by simp
next
  case (step h n m s ts)
  then obtain k' where k: "k = Suc k'" "length ts < k'" by (cases k) auto
  with step.hyps(1) step.IH [of k' "stack @ [s]"] show ?case by simp
qed

lemma Error_plain_chain:
  assumes "plain_chain h n (s # ts)" and "length ts < k"
  shows "Error (Suc k) h (ERef n) = Return (format_stack ts s)"
  using assms(1)
proof (cases rule: plain_chain.cases)
  case root
  obtain k' where "k = Suc k'" using assms(2) by (cases k) auto
  with root show ?thesis
    by (simp add: ErrorEx_Error_def base_message_def format_stack_def)
next
  case (step m)
  from build_stack_plain_chain [OF step(2) assms(2), of "Error k h" "[]"] step(1)
  show ?thesis
    by (simp add: ErrorEx_Error_def base_message_def)
qed

lemma foldl_join_semicolon:
  "ms \<noteq> [] \<Longrightarrow>
     foldl (\<lambda>m y. m @ '' '' @ y @ '';'') msg (butlast ms) @ '' '' @ last ms
       = msg @ '' '' @ join_semicolon ms"
  by (induction ms arbitrary: msg rule: join_semicolon.induct) simp_all

lemma stack_loop_rev:
  assumes "ms \<noteq> []"
  shows "stack_loop (rev ms) msg = msg @ '' '' @ join_semicolon ms"
proof -
  from assms obtain ms' x where ms: "ms = ms' @ [x]" by (cases ms rule: rev_cases) auto
  show ?thesis
    using foldl_join_semicolon [OF assms, of msg] by (simp add: ms)
qed

lemma format_stack_chain:
  "format_stack (rev ms @ [b]) s = render_chain b (ms @ [s])"
proof (cases "ms = []")
  case True
  then show ?thesis by (simp add: format_stack_def render_chain_def)
next
  case False
  then have "length (rev ms @ [b]) \<noteq> 1" "rev ms @ [b] \<noteq> []" by auto
  with False show ?thesis
    by (simp add: format_stack_def render_chain_def stack_loop_rev del: stack_loop_Cons)
qed

text \<open>
  C1. A chain built with \<open>New\<close> and \<open>Wrap\<close> only, of any length, in any store and with
  any texts, renders as \<open>render_chain\<close> says, with any fuel from its length plus two
  on: the root text, \<open>": "\<close>, the middle ancestors oldest first joined with \<open>"; "\<close>,
  and the text of the head set off with \<open>" > "\<close>. For the lengths zero to four this is
  \<open>b\<close>, \<open>b: s1\<close>, \<open>b: s1 > s2\<close>, \<open>b: s1; s2 > s3\<close> and \<open>b: s1; s2; s3 > s4\<close>.
\<close>

theorem Error_wrap_chain:
  "Error (Suc (Suc (length ss + k))) (fst (wrap_chain h b ss)) (ERef (snd (wrap_chain h b ss)))
     = Return (render_chain b ss)
   \<and> render_chain b [] = b
   \<and> render_chain b [s1] = b @ '': '' @ s1
   \<and> render_chain b [s1, s2] = b @ '': '' @ s1 @ '' > '' @ s2
   \<and> render_chain b [s1, s2, s3] = b @ '': '' @ s1 @ ''; '' @ s2 @ '' > '' @ s3
   \<and> render_chain b [s1, s2, s3, s4]
       = b @ '': '' @ s1 @ ''; '' @ s2 @ ''; '' @ s3 @ '' > '' @ s4"
proof -
  let ?h = "fst (wrap_chain h b ss)" and ?n = "snd (wrap_chain h b ss)"
  have chain: "plain_chain ?h ?n (rev ss @ [b])"
    by (rule plain_chain_wrap_chain)
  have "Error (Suc (Suc (length ss + k))) ?h (ERef ?n) = Return (render_chain b ss)"
  proof (cases ss rule: rev_cases)
    case Nil
    with chain Error_plain_chain [of ?h ?n b "[]" "Suc (length ss + k)"] show ?thesis
      by (simp add: format_stack_def render_chain_def)
  next
    case (snoc ms s)
    with chain have "plain_chain ?h ?n (s # (rev ms @ [b]))" by simp
    from Error_plain_chain [OF this, of "Suc (length ss + k)"] snoc show ?thesis
      by (simp add: format_stack_chain)
  qed
  then show ?thesis by (simp add: render_chain_def)
qed

text \<open>The five chains of the specification, from the root \<open>base\<close>.\<close>

theorem Error_wrap_chain_witness:
  "(let (h0, n0) = New [] ''base'';
        (h1, n1) = Wrap h0 n0 ''s1'';
        (h2, n2) = Wrap h1 n1 ''s2'';
        (h3, n3) = Wrap h2 n2 ''s3'';
        (h4, n4) = Wrap h3 n3 ''s4''
    in Error 6 h0 (ERef n0) = Return ''base''
     \<and> Error 6 h1 (ERef n1) = Return ''base: s1''
     \<and> Error 6 h2 (ERef n2) = Return ''base: s1 > s2''
     \<and> Error 6 h3 (ERef n3) = Return ''base: s1; s2 > s3''
     \<and> Error 6 h4 (ERef n4) = Return ''base: s1; s2; s3 > s4'')"
  using Error_wrap_chain [of "[]" 4 "[]" "''base''"]
    Error_wrap_chain [of "[''s1'']" 3 "[]" "''base''"]
    Error_wrap_chain [of "[''s1'', ''s2'']" 2 "[]" "''base''"]
    Error_wrap_chain [of "[''s1'', ''s2'', ''s3'']" 1 "[]" "''base''"]
    Error_wrap_chain [of "[''s1'', ''s2'', ''s3'', ''s4'']" 0 "[]" "''base''"]
  by (simp add: wrap_chain_def New_def Wrap_def alloc_def eval_nat_numeral render_chain_def)

section \<open>Formatting a stack of three ancestors\<close>

lemma append_extra_prefix:
  "append_extra rec exs (p @ m) = and_then (append_extra rec exs m) (\<lambda>s. Return (p @ s))"
proof (induction exs arbitrary: m)
  case Nil
  show ?case by simp
next
  case (Cons ex exs)
  show ?case
  proof (cases "rec ex")
    case (Return s)
    then show ?thesis using Cons.IH [of "m @ ''; '' @ s"] by simp
  qed simp_all
qed

text \<open>
  C2, as the code has it. For a node whose ancestor stack is \<open>[p1, p2, p3]\<close> (\<open>p1\<close>
  the nearest ancestor, \<open>p3\<close> the farthest) and whose own final message is \<open>m\<close> (its
  text and cause, \<open>m0\<close>, followed by its extras), \<open>Error\<close> returns \<open>p3: p2; p1 > m\<close>:
  the middle entries come farthest first, \<open>p2\<close> before \<open>p1\<close>.
\<close>

theorem Error_three_ancestors:
  assumes "deref h a = Some (ExObj ee)"
    and "build_stack (Error k h) k h (err ee) [] = Return [p1, p2, p3]"
    and "base_message (Error k h) h ee = Return m0"
    and "append_extra (Error k h) (extra ee) m0 = Return m"
  shows "Error (Suc k) h (ERef a) = Return (p3 @ '': '' @ p2 @ ''; '' @ p1 @ '' > '' @ m)"
proof -
  have "format_stack [p1, p2, p3] m0 = (p3 @ '': '' @ p2 @ ''; '' @ p1 @ '' > '') @ m0"
    by (simp add: format_stack_def)
  then have "append_extra (Error k h) (extra ee) (format_stack [p1, p2, p3] m0)
      = Return ((p3 @ '': '' @ p2 @ ''; '' @ p1 @ '' > '') @ m)"
    using assms(4) by (simp only: append_extra_prefix and_then.simps)
  then show ?thesis
    using assms(1-3) by (simp add: ErrorEx_Error_def)
qed

text \<open>
  The store of \<open>New("p3").Wrap("p2").Wrap("p1").Wrap("m")\<close>: the head is at address 3
  and its ancestor stack is \<open>[p1, p2, p3]\<close>.
\<close>

lemma three_ancestors_eq:
  "three_ancestors =
    ([ExObj \<lparr>cause = ENil, data = None, err = ENil, txt' = ''p3'', fmt = False, extra = []\<rparr>,
      ExObj \<lparr>cause = ENil, data = None, err = ERef 0, txt' = ''p2'', fmt = False, extra = []\<rparr>,
      ExObj \<lparr>cause = ENil, data = None, err = ERef 1, txt' = ''p1'', fmt = False, extra = []\<rparr>,
      ExObj \<lparr>cause = ENil, data = None, err = ERef 2, txt' = ''m'', fmt = False, extra = []\<rparr>],
     3)"
  by (simp add: three_ancestors_def New_def Wrap_def alloc_def)

text \<open>
  C2 as stated fails there: the stack is \<open>[p1, p2, p3]\<close>, the message is \<open>m\<close>, and the
  rendering is \<open>p3: p2; p1 > m\<close>, not \<open>p3: p1; p2 > m\<close>.
\<close>

theorem Error_three_ancestors_counterexample:
  "build_stack (Error 4 (fst three_ancestors)) 4 (fst three_ancestors) (ERef 2) []
      = Return [''p1'', ''p2'', ''p3'']
   \<and> Error 5 (fst three_ancestors) (ERef 3) = Return ''p3: p2; p1 > m''
   \<and> Error 5 (fst three_ancestors) (ERef 3) \<noteq> Return ''p3: p1; p2 > m''"
  by (simp add: three_ancestors_eq eval_nat_numeral ErrorEx_Error_def base_message_def
      format_stack_def)

theorem Error_three_ancestors_witness:
  "Error 5 (fst three_ancestors) (ERef 3) = Return ''p3: p2; p1 > m''"
proof -
  let ?h = "fst three_ancestors"
  let ?ee = "\<lparr>cause = ENil, data = None, err = ERef 2, txt' = ''m'', fmt = False,
              extra = []\<rparr>"
  have 1: "deref ?h 3 = Some (ExObj ?ee)"
    by (simp add: three_ancestors_eq eval_nat_numeral)
  have 2: "build_stack (Error 4 ?h) 4 ?h (ERef 2) [] = Return [''p1'', ''p2'', ''p3'']"
    by (simp add: three_ancestors_eq eval_nat_numeral)
  have 3: "base_message (Error 4 ?h) ?h ?ee = Return ''m''"
    by (simp add: base_message_def)
  have 4: "append_extra (Error 4 ?h) [] ''m'' = Return ''m''"
    by simp
  show ?thesis
    using Error_three_ancestors [of ?h 3 ?ee 4 "''p1''" "''p2''" "''p3''" "''m''" "''m''", OF 1]
      2 3 4
    by (simp add: eval_nat_numeral)
qed

section \<open>The entries of the ancestor stack\<close>

lemma build_stack_walk:
  "build_stack rec k h e stack
     = and_then (walk_entries (own_entries rec) k h e) (\<lambda>es. Return (stack @ es))"
proof (induction k arbitrary: e stack)
  case 0
  show ?case by simp
next
  case (Suc k)
  show ?case
  proof (cases e)
    case ENil
    then show ?thesis by simp
  next
    case (ERef a)
    show ?thesis
    proof (cases "deref h a")
      case None
      with ERef show ?thesis by simp
    next
      case (Some ob)
      show ?thesis
      proof (cases ob)
        case (ExObj eex)
        show ?thesis
        proof (cases "cause eex \<noteq> ENil")
          case True
          show ?thesis
          proof (cases "rec (cause eex)")
            case (Return c)
            with ERef Some ExObj True show ?thesis
              by (simp add: own_entries_def Suc.IH [of "err eex"] and_then_assoc)
          qed (use ERef Some ExObj True in \<open>simp_all add: own_entries_def\<close>)
        next
          case False
          with ERef Some ExObj show ?thesis
            by (simp add: own_entries_def Suc.IH [of "err eex"] and_then_assoc)
        qed
      qed (use ERef Some in simp_all)
    qed
  qed
qed

lemma build_stack_p4_walk:
  "build_stack_p4 rec k h e stack
     = and_then (walk_entries (claimed_entry rec) k h e) (\<lambda>es. Return (stack @ es))"
proof (induction k arbitrary: e stack)
  case 0
  show ?case by simp
next
  case (Suc k)
  show ?case
  proof (cases e)
    case ENil
    then show ?thesis by simp
  next
    case (ERef a)
    show ?thesis
    proof (cases "deref h a")
      case None
      with ERef show ?thesis by simp
    next
      case (Some ob)
      show ?thesis
      proof (cases ob)
        case (ExObj eex)
        show ?thesis
        proof (cases "fmt eex \<or> txt' eex = []")
          case True
          with ERef Some ExObj show ?thesis
            by (simp add: claimed_entry_def Suc.IH [of "err eex"])
        next
          case False
          show ?thesis
          proof (cases "extrastring rec (extra eex) []")
            case (Return x)
            show ?thesis
            proof (cases "cause eex \<noteq> ENil")
              case True
              show ?thesis
              proof (cases "rec (cause eex)")
                case (Return c)
                with ERef Some ExObj True False \<open>extrastring rec (extra eex) [] = Return x\<close>
                show ?thesis
                  by (simp add: claimed_entry_def Suc.IH [of "err eex"] and_then_assoc)
              qed (use ERef Some ExObj True False \<open>extrastring rec (extra eex) [] = Return x\<close>
                   in \<open>simp_all add: claimed_entry_def\<close>)
            next
              case nocause: False
              with ERef Some ExObj False Return show ?thesis
                by (simp add: claimed_entry_def Suc.IH [of "err eex"] and_then_assoc)
            qed
          qed (use ERef Some ExObj False in \<open>simp_all add: claimed_entry_def\<close>)
        qed
      qed (use ERef Some in simp_all)
    qed
  qed
qed

lemma cause_store_eq:
  "cause_store =
     [ExObj \<lparr>cause = ENil, data = None, err = ENil, txt' = ''base'', fmt = False, extra = []\<rparr>,
      ExObj \<lparr>cause = ENil, data = None, err = ENil, txt' = ''cause'', fmt = False, extra = []\<rparr>,
      ExObj \<lparr>cause = ERef 1, data = None, err = ERef 0, txt' = ''mid'', fmt = False,
             extra = []\<rparr>,
      ExObj \<lparr>cause = ENil, data = None, err = ERef 2, txt' = ''leaf'', fmt = False,
             extra = []\<rparr>,
      ExObj \<lparr>cause = ENil, data = None, err = ENil, txt' = ''root'', fmt = False, extra = []\<rparr>,
      ExObj \<lparr>cause = ENil, data = None, err = ERef 4, txt' = [], fmt = False, extra = []\<rparr>,
      ExObj \<lparr>cause = ENil, data = None, err = ERef 5, txt' = ''x'', fmt = False, extra = []\<rparr>]"
  by (simp add: cause_store_def New_def Wrap_def WrapCause_def alloc_def)

lemma walk_entries_causeless:
  "causeless k h e \<Longrightarrow> walk_entries (own_entries rec) k h e = walk_entries kept_text k h e"
proof (induction k arbitrary: e)
  case 0
  show ?case by simp
next
  case (Suc k)
  show ?case
  proof (cases e)
    case ENil
    then show ?thesis by simp
  next
    case (ERef a)
    with Suc show ?thesis
      by (auto simp: own_entries_def kept_text_def split: option.splits obj.splits)
  qed
qed

text \<open>
  C3, as the code has it. In errorex.go, along a wrapped chain whose ancestors have no
  cause, the walk omits every ancestor that is a template and pushes the text of
  every other ancestor, empty or not: the stack is what \<open>kept_text\<close> gives, entry by
  entry. In the revision of part\_004 the walk is the one of the specification, with
  or without causes: it pushes what \<open>claimed_entry\<close> gives, nothing for a template or
  an empty text, and otherwise the single entry made of the stacked text and, for an
  ancestor with a cause, \<open>" < "\<close> and the rendered cause.
\<close>

theorem build_stack_entries:
  "(causeless k h e \<longrightarrow>
      build_stack rec k h e stack
        = and_then (walk_entries kept_text k h e) (\<lambda>es. Return (stack @ es)))
   \<and> build_stack_p4 rec k h e stack
        = and_then (walk_entries (claimed_entry rec) k h e) (\<lambda>es. Return (stack @ es))"
  using build_stack_walk [of rec k h e stack] build_stack_p4_walk [of rec k h e stack]
    walk_entries_causeless [of k h e rec]
  by simp

text \<open>
  C3 as stated fails on errorex.go, which has no test for an empty text: for
  \<open>root := New("root")\<close>, \<open>blank := root.Wrap("")\<close> and \<open>x := blank.Wrap("x")\<close> the walk
  from \<open>x\<close> keeps the empty text of \<open>blank\<close> on the stack, where the specification has
  the stack \<open>[root]\<close>, and \<open>x\<close> renders as \<open>root:  > x\<close>.
\<close>

theorem build_stack_entries_counterexample:
  "build_stack (Error 3 cause_store) 3 cause_store (ERef 5) [] = Return ['''', ''root'']
   \<and> walk_entries (claimed_entry (Error 3 cause_store)) 3 cause_store (ERef 5)
      = Return [''root'']
   \<and> Error 4 cause_store (ERef 6) = Return ''root:  > x''"
  by (simp add: cause_store_eq eval_nat_numeral claimed_entry_def ErrorEx_Error_def
      base_message_def format_stack_def)

theorem build_stack_entries_witness:
  "causeless 3 cause_store (ERef 5)
   \<and> walk_entries kept_text 3 cause_store (ERef 5) = Return ['''', ''root'']
   \<and> build_stack (Error 3 cause_store) 3 cause_store (ERef 5) [] = Return ['''', ''root'']
   \<and> build_stack_p4 (Error_p4 3 cause_store) 3 cause_store (ERef 2) []
      = Return [''mid < cause'', ''base'']"
proof -
  have 0: "causeless 3 cause_store (ERef 5)"
    by (simp add: cause_store_eq eval_nat_numeral)
  have 1: "walk_entries kept_text 3 cause_store (ERef 5) = Return ['''', ''root'']"
    by (simp add: cause_store_eq eval_nat_numeral kept_text_def)
  have 2: "walk_entries (claimed_entry (Error_p4 3 cause_store)) 3 cause_store (ERef 2)
      = Return [''mid < cause'', ''base'']"
    by (simp add: cause_store_eq eval_nat_numeral claimed_entry_def ErrorEx_Error_p4_def
        base_message_p4_def format_stack_p4_def)
  show ?thesis
    using build_stack_entries [of 3 cause_store "ERef 5" "Error 3 cause_store" "[]"]
      build_stack_entries [of 3 cause_store "ERef 2" "Error_p4 3 cause_store" "[]"] 0 1 2
    by simp
qed

section \<open>Identity along the wrapped and cause links\<close>

lemma reaches_simps [simp]:
  "reaches h ENil b = False" "reaches h (ERef c) b = ancestor h c b"
  by (simp_all add: reaches_def)

lemma ancestor_ExObj_iff:
  assumes "deref h a = Some (ExObj ee)"
  shows "ancestor h a t \<longleftrightarrow> a = t \<or> reaches h (err ee) t \<or> reaches h (cause ee) t"
proof
  assume "ancestor h a t"
  then show "a = t \<or> reaches h (err ee) t \<or> reaches h (cause ee) t"
    using assms by (cases rule: ancestor.cases) auto
next
  assume "a = t \<or> reaches h (err ee) t \<or> reaches h (cause ee) t"
  then show "ancestor h a t"
    using assms
    by (auto simp: reaches_def intro: ancestor.intros split: error.splits)
qed

lemma ancestor_errorString_iff:
  assumes "deref h a = Some (errorString s)"
  shows "ancestor h a t \<longleftrightarrow> a = t"
proof
  assume "ancestor h a t"
  then show "a = t"
    using assms by (cases rule: ancestor.cases) auto
qed (auto intro: ancestor.self)

lemma ancestor_wrapError_iff:
  assumes "deref h a = Some (wrapError s w)"
  shows "ancestor h a t \<longleftrightarrow> a = t \<or> reaches h w t"
proof
  assume "ancestor h a t"
  then show "a = t \<or> reaches h w t"
    using assms by (cases rule: ancestor.cases) auto
next
  assume "a = t \<or> reaches h w t"
  then show "ancestor h a t"
    using assms
    by (auto simp: reaches_def intro: ancestor.intros split: error.splits)
qed

lemma links_ok_ExObj:
  assumes "links_ok r h" and "deref h a = Some (ExObj ee)"
  shows "edge_ok r h a (err ee)" and "edge_ok r h a (cause ee)"
  using assms by (auto simp: links_ok_def deref_def split: if_splits)

lemma links_ok_wrapError:
  assumes "links_ok r h" and "deref h a = Some (wrapError s w)"
  shows "edge_ok r h a w"
  using assms by (auto simp: links_ok_def deref_def split: if_splits)

lemma errors_Is_ENil [simp]: "errors_Is (Suc k) h ENil (ERef t) = Return False"
  by simp

text \<open>One step of errors.Is on an edge, given the result for objects of smaller rank.\<close>

lemma errors_Is_edge:
  assumes IH: "\<And>c j. c < length h \<Longrightarrow> r c < r a \<Longrightarrow> r c + 2 \<le> j
                 \<Longrightarrow> errors_Is j h (ERef c) (ERef t) = Return (ancestor h c t)"
    and "edge_ok r h a e" and "r a + 1 \<le> k"
  shows "errors_Is k h e (ERef t) = Return (reaches h e t)"
proof (cases e)
  case ENil
  obtain k' where "k = Suc k'" using assms(3) by (cases k) auto
  with ENil show ?thesis by simp
next
  case (ERef c)
  with assms(2) have "c < length h" "r c < r a" by (auto simp: edge_ok_def)
  with IH [of c k] assms(3) ERef show ?thesis by simp
qed

lemma errors_Is_ancestor:
  assumes "links_ok r h"
  shows "a < length h \<Longrightarrow> r a + 2 \<le> k
           \<Longrightarrow> errors_Is k h (ERef a) (ERef t) = Return (ancestor h a t)"
proof (induction a arbitrary: k rule: measure_induct_rule [where f = r])
  case (less a)
  obtain k' where k: "k = Suc k'" and k': "r a + 1 \<le> k'"
    using less.prems(2) by (cases k) auto
  have edge: "errors_Is k' h e (ERef t) = Return (reaches h e t)" if "edge_ok r h a e" for e
    using errors_Is_edge [of h r a t e k'] less.IH that k' by blast
  from less.prems(1) obtain ob where ob: "deref h a = Some ob"
    by (auto simp: deref_def)
  show ?case
  proof (cases "a = t")
    case True
    then show ?thesis by (simp add: k ancestor.self)
  next
    case False
    show ?thesis
    proof (cases ob)
      case (ExObj ee)
      note e1 = edge [OF links_ok_ExObj(1) [OF assms ob [unfolded ExObj]]]
      note e2 = edge [OF links_ok_ExObj(2) [OF assms ob [unfolded ExObj]]]
      show ?thesis
        using False ob ExObj e1 e2
        by (auto simp: k ErrorEx_is_def ancestor_ExObj_iff)
    next
      case (errorString s)
      with False ob show ?thesis
        by (simp add: k ancestor_errorString_iff)
    next
      case (wrapError s w)
      note e1 = edge [OF links_ok_wrapError [OF assms ob [unfolded wrapError]]]
      show ?thesis
        using False ob wrapError e1
        by (auto simp: k ancestor_wrapError_iff)
    qed
  qed
qed

lemma Is_returns_ancestor:
  assumes "links_ok r h" and "deref h n = Some (ExObj x)" and "r n + 1 \<le> k"
  shows "Is k h n (ERef t) = Return (ancestor h n t)"
proof -
  have edge: "errors_Is k h e (ERef t) = Return (reaches h e t)" if "edge_ok r h n e" for e
    using errors_Is_edge [of h r n t e k] errors_Is_ancestor [OF assms(1)] that assms(3)
    by blast
  note e1 = edge [OF links_ok_ExObj(1) [OF assms(1,2)]]
  note e2 = edge [OF links_ok_ExObj(2) [OF assms(1,2)]]
  show ?thesis
    using assms(2) e1 e2 by (auto simp: Is_def ErrorEx_is_def ancestor_ExObj_iff)
qed

text \<open>Objects of a well-linked store reach objects of that store only, however it grows.\<close>

lemma ancestor_closed:
  assumes "links_ok r h"
  shows "ancestor (h @ xs) a b \<Longrightarrow> a < length h \<Longrightarrow> b < length h"
proof (induction "h @ xs" a b rule: ancestor.induct)
  case (self a)
  then show ?case by simp
next
  case (wrapped a ee c b)
  then have "deref h a = Some (ExObj ee)" by (simp add: deref_append_old)
  from links_ok_ExObj(1) [OF assms this] wrapped show ?case
    by (simp add: edge_ok_def)
next
  case (caused a ee c b)
  then have "deref h a = Some (ExObj ee)" by (simp add: deref_append_old)
  from links_ok_ExObj(2) [OF assms this] caused show ?case
    by (simp add: edge_ok_def)
next
  case (unwrapped a s c b)
  then have "deref h a = Some (wrapError s (ERef c))" by (simp add: deref_append_old)
  from links_ok_wrapError [OF assms this] unwrapped show ?case
    by (simp add: edge_ok_def)
qed

lemma edge_ok_append: "edge_ok r h a e \<Longrightarrow> edge_ok r (h @ xs) a e"
  by (auto simp: edge_ok_def split: error.splits)

lemma links_ok_New:
  assumes "links_ok r h"
  shows "links_ok r (fst (New h s))"
  unfolding links_ok_def
proof (intro allI impI)
  fix a assume a: "a < length (fst (New h s))"
  show "case fst (New h s) ! a of
          ExObj ee \<Rightarrow> edge_ok r (fst (New h s)) a (err ee) \<and> edge_ok r (fst (New h s)) a (cause ee)
        | errorString s \<Rightarrow> True
        | wrapError s' w \<Rightarrow> edge_ok r (fst (New h s)) a w"
  proof (cases "a < length h")
    case True
    with assms have "case h ! a of
          ExObj ee \<Rightarrow> edge_ok r h a (err ee) \<and> edge_ok r h a (cause ee)
        | errorString s \<Rightarrow> True
        | wrapError s' w \<Rightarrow> edge_ok r h a w"
      by (simp add: links_ok_def)
    with True show ?thesis
      by (auto simp: New_def alloc_def nth_append edge_ok_append split: obj.splits)
  next
    case False
    with a have "a = length h" by (simp add: New_def alloc_def)
    then show ?thesis by (simp add: New_def alloc_def edge_ok_def)
  qed
qed

text \<open>
  C4. In a store whose wrapped and cause links are in order, \<open>n.Is(t)\<close> returns, with
  fuel from \<open>r n + 1\<close> on, whether \<open>t\<close> is an ancestor of \<open>n\<close>: \<open>n\<close> itself, or an object
  reached along wrapped and cause links. So it is true for \<open>n\<close>, for every node of its
  wrapped chain and for every node of the chain of an attached cause; and it is false
  for a node that \<open>New\<close> constructs afterwards, whatever its text.
\<close>

theorem Is_ancestors:
  assumes "links_ok r h" and "deref h n = Some (ExObj x)"
  shows "Is (r n + 1 + k) h n (ERef t) = Return (ancestor h n t)
       \<and> Is (r n + 1 + k) (fst (New h s)) n (ERef (snd (New h s))) = Return False"
proof -
  have 1: "Is (r n + 1 + k) h n (ERef t) = Return (ancestor h n t)"
    using Is_returns_ancestor [OF assms] by simp
  have n: "n < length h" using assms(2) by (rule deref_Some_length)
  have new: "fst (New h s) = h @ [ExObj \<lparr>cause = ENil, data = None, err = ENil, txt' = s,
                     fmt = False, extra = []\<rparr>]" "snd (New h s) = length h"
    by (simp_all add: New_def alloc_def)
  have "deref (fst (New h s)) n = Some (ExObj x)"
    using assms(2) n by (simp add: new deref_append_old)
  from Is_returns_ancestor [OF links_ok_New [OF assms(1)] this, of "r n + 1 + k" "snd (New h s)"]
  have "Is (r n + 1 + k) (fst (New h s)) n (ERef (snd (New h s)))
          = Return (ancestor (fst (New h s)) n (snd (New h s)))"
    by simp
  moreover have "\<not> ancestor (fst (New h s)) n (snd (New h s))"
    using ancestor_closed [OF assms(1), of _ n "length h"] n by (auto simp: new)
  ultimately show ?thesis using 1 by simp
qed

lemma identity_store_eq:
  "identity_store =
     [ExObj \<lparr>cause = ENil, data = None, err = ENil, txt' = ''X'', fmt = False, extra = []\<rparr>,
      ExObj \<lparr>cause = ENil, data = None, err = ERef 0, txt' = ''Y'', fmt = False, extra = []\<rparr>,
      ExObj \<lparr>cause = ENil, data = None, err = ERef 1, txt' = ''Z'', fmt = False, extra = []\<rparr>,
      ExObj \<lparr>cause = ENil, data = None, err = ENil, txt' = ''C'', fmt = False, extra = []\<rparr>,
      ExObj \<lparr>cause = ENil, data = None, err = ERef 3, txt' = ''D'', fmt = False, extra = []\<rparr>,
      ExObj \<lparr>cause = ERef 4, data = None, err = ERef 1, txt' = ''E'', fmt = False,
             extra = []\<rparr>]"
  by (simp add: identity_store_def New_def Wrap_def WrapCause_def alloc_def)

lemma identity_store_links: "links_ok (\<lambda>a. a) identity_store"
  by (simp add: links_ok_def identity_store_eq edge_ok_def eval_nat_numeral All_less_Suc)

text \<open>
  The instance of the specification: \<open>leaf.Is(base)\<close> and \<open>leaf.Is(mid)\<close> are true,
  \<open>leaf.Is(New("X"))\<close> is false, and \<open>leaf2\<close> answers true for \<open>causeChain\<close> and for its
  ancestor \<open>cbase\<close>.
\<close>

theorem Is_ancestors_witness:
  "Is 3 identity_store 2 (ERef 0) = Return True
   \<and> Is 3 identity_store 2 (ERef 1) = Return True
   \<and> Is 3 (fst (New identity_store ''X'')) 2 (ERef (snd (New identity_store ''X'')))
       = Return False
   \<and> Is 6 identity_store 5 (ERef 4) = Return True
   \<and> Is 6 identity_store 5 (ERef 3) = Return True"
proof -
  have leaf: "deref identity_store 2 = Some (ExObj \<lparr>cause = ENil, data = None, err = ERef 1,
      txt' = ''Z'', fmt = False, extra = []\<rparr>)"
    by (simp add: identity_store_eq eval_nat_numeral)
  have mid: "deref identity_store 1 = Some (ExObj \<lparr>cause = ENil, data = None, err = ERef 0,
      txt' = ''Y'', fmt = False, extra = []\<rparr>)"
    by (simp add: identity_store_eq)
  have chain: "deref identity_store 4 = Some (ExObj \<lparr>cause = ENil, data = None, err = ERef 3,
      txt' = ''D'', fmt = False, extra = []\<rparr>)"
    by (simp add: identity_store_eq eval_nat_numeral)
  have leaf2: "deref identity_store 5 = Some (ExObj \<lparr>cause = ERef 4, data = None,
      err = ERef 1, txt' = ''E'', fmt = False, extra = []\<rparr>)"
    by (simp add: identity_store_eq eval_nat_numeral)
  have a1: "ancestor identity_store 2 1"
    using ancestor.wrapped [OF leaf, of 1 1] ancestor.self [of identity_store 1] by simp
  have a0: "ancestor identity_store 2 0"
    using ancestor.wrapped [OF leaf, of 1 0] ancestor.wrapped [OF mid, of 0 0]
      ancestor.self [of identity_store 0]
    by simp
  have c4: "ancestor identity_store 5 4"
    using ancestor.caused [OF leaf2, of 4 4] ancestor.self [of identity_store 4] by simp
  have c3: "ancestor identity_store 5 3"
    using ancestor.caused [OF leaf2, of 4 3] ancestor.wrapped [OF chain, of 3 3]
      ancestor.self [of identity_store 3]
    by simp
  show ?thesis
    using Is_ancestors [OF identity_store_links leaf, of 0 0 "''X''"]
      Is_ancestors [OF identity_store_links leaf, of 0 1 "''X''"]
      Is_ancestors [OF identity_store_links leaf2, of 0 4 "''X''"]
      Is_ancestors [OF identity_store_links leaf2, of 0 3 "''X''"]
      a0 a1 c4 c3
    by (simp add: eval_nat_numeral)
qed

section \<open>The package functions of wrap.go\<close>

lemma wraps_new_wrapError: "wraps j (Return (new_wrapError h msg e)) msg e"
  by (simp add: wraps_def new_wrapError_def alloc_def errors_Unwrap_def)

lemma pkg_Wrap_not_nil: "e \<noteq> ENil \<Longrightarrow> pkg_Wrap k h e m \<noteq> Return (h', ENil)"
  by (cases "fmt_v (Error k h) h e") (simp_all add: pkg_Wrap_def new_wrapError_def alloc_def)

lemma pkg_WrapCause_not_nil: "e \<noteq> ENil \<Longrightarrow> pkg_WrapCause k h e c m \<noteq> Return (h', ENil)"
  by (cases "fmt_v (Error k h) h e"; cases "fmt_v (Error k h) h c")
     (simp_all add: pkg_WrapCause_def pkg_Wrap_def new_wrapError_def alloc_def)

text \<open>
  C5. The package functions \<open>Wrap\<close> and \<open>WrapCause\<close> of wrap.go. Both return nil for a
  nil \<open>err\<close> and never otherwise. \<open>Wrap\<close> returns \<open>err\<close> itself for an empty message;
  \<open>WrapCause\<close> with a nil cause is \<open>Wrap\<close>. Where \<open>%v\<close> prints \<open>err\<close> as \<open>s\<close> and the cause
  as \<open>t\<close>, the new error displays \<open>s: m\<close> for \<open>Wrap\<close> with a message \<open>m\<close>, \<open>s: t\<close> for
  \<open>WrapCause\<close> with an empty message and \<open>s: m: t\<close> with both, and it unwraps to \<open>err\<close>.
\<close>

theorem pkg_Wrap_cases:
  "pkg_Wrap k h ENil m = Return (h, ENil)
   \<and> pkg_WrapCause k h ENil c m = Return (h, ENil)
   \<and> (e \<noteq> ENil \<longrightarrow>
        pkg_Wrap k h e [] = Return (h, e)
      \<and> pkg_WrapCause k h e ENil m = pkg_Wrap k h e m
      \<and> (\<forall>h'. pkg_Wrap k h e m \<noteq> Return (h', ENil)
              \<and> pkg_WrapCause k h e c m \<noteq> Return (h', ENil))
      \<and> (fmt_v (Error k h) h e = Return s \<longrightarrow>
           (m \<noteq> [] \<longrightarrow> wraps j (pkg_Wrap k h e m) (s @ '': '' @ m) e)
         \<and> (c \<noteq> ENil \<and> fmt_v (Error k h) h c = Return t \<longrightarrow>
              wraps j (pkg_WrapCause k h e c []) (s @ '': '' @ t) e
            \<and> (m \<noteq> [] \<longrightarrow>
                 wraps j (pkg_WrapCause k h e c m) (s @ '': '' @ m @ '': '' @ t) e))))"
proof -
  have "wraps j (pkg_Wrap k h e m) (s @ '': '' @ m) e"
    if "e \<noteq> ENil" "fmt_v (Error k h) h e = Return s" "m \<noteq> []"
    using that by (simp add: pkg_Wrap_def wraps_new_wrapError)
  moreover have "wraps j (pkg_WrapCause k h e c []) (s @ '': '' @ t) e"
    if "e \<noteq> ENil" "fmt_v (Error k h) h e = Return s" "c \<noteq> ENil"
       "fmt_v (Error k h) h c = Return t"
    using that by (simp add: pkg_WrapCause_def wraps_new_wrapError)
  moreover have "wraps j (pkg_WrapCause k h e c m) (s @ '': '' @ m @ '': '' @ t) e"
    if "e \<noteq> ENil" "fmt_v (Error k h) h e = Return s" "c \<noteq> ENil"
       "fmt_v (Error k h) h c = Return t" "m \<noteq> []"
    using that by (simp add: pkg_WrapCause_def wraps_new_wrapError)
  moreover have "pkg_WrapCause k h e ENil m = pkg_Wrap k h e m" if "e \<noteq> ENil"
    using that by (simp add: pkg_WrapCause_def pkg_Wrap_def)
  ultimately show ?thesis
    by (simp add: pkg_Wrap_not_nil pkg_WrapCause_not_nil)
       (simp add: pkg_Wrap_def pkg_WrapCause_def)
qed

theorem pkg_Wrap_cases_witness:
  "pkg_Wrap 1 native_store (ERef 0) [] = Return (native_store, ERef 0)
   \<and> wraps 0 (pkg_Wrap 1 native_store (ERef 0) ''message'') ''test: message'' (ERef 0)
   \<and> pkg_WrapCause 1 native_store (ERef 0) ENil ''message''
       = pkg_Wrap 1 native_store (ERef 0) ''message''
   \<and> wraps 0 (pkg_WrapCause 1 native_store (ERef 0) (ERef 1) []) ''test: cause'' (ERef 0)
   \<and> wraps 0 (pkg_WrapCause 1 native_store (ERef 0) (ERef 1) ''message'')
        ''test: message: cause'' (ERef 0)"
proof -
  have 1: "fmt_v (Error 1 native_store) native_store (ERef 0) = Return ''test''"
    by (simp add: fmt_v_def native_store_def)
  have 2: "fmt_v (Error 1 native_store) native_store (ERef 1) = Return ''cause''"
    by (simp add: fmt_v_def native_store_def)
  show ?thesis
    using pkg_Wrap_cases [of 1 native_store "''message''" "ERef 1" "ERef 0" "''test''" 0
        "''cause''"] 1 2
    by simp
qed

section \<open>Templates\<close>

lemma utoa_digit: "n < 10 \<Longrightarrow> utoa n = [digit_char n]"
  by (subst utoa.simps) simp

lemma Sprintf_v7: "Sprintf ''v=%d'' [IntV 7] = ''v=7''"
  by (simp add: Itoa_def utoa_digit digit_char_def)

text \<open>
  C6. For \<open>t := NewFormat("v=%d")\<close>, in any store: \<open>t\<close> itself renders as the empty
  string, \<open>t.WrapArgs(7)\<close> is the node \<open>t.Wrap("v=7")\<close>, and that node renders as
  \<open>v=7\<close>.
\<close>

theorem template_round_trip:
  "(let (h1, t) = NewFormat h ''v=%d''
    in Error (Suc (Suc k)) h1 (ERef t) = Return []
     \<and> WrapArgs h1 t [IntV 7] = Return (Wrap h1 t ''v=7'')
     \<and> Error (Suc (Suc (Suc k))) (fst (Wrap h1 t ''v=7'')) (ERef (snd (Wrap h1 t ''v=7'')))
         = Return ''v=7'')"
  by (simp add: NewFormat_def WrapArgs_def Wrap_def alloc_def Sprintf_v7 ErrorEx_Error_def
      base_message_def format_stack_def del: Sprintf.simps)

theorem template_round_trip_witness:
  "Error 2 (fst (NewFormat [] ''v=%d'')) (ERef 0) = Return []
   \<and> WrapArgs (fst (NewFormat [] ''v=%d'')) 0 [IntV 7]
       = Return (Wrap (fst (NewFormat [] ''v=%d'')) 0 ''v=7'')
   \<and> Error 3 (fst (Wrap (fst (NewFormat [] ''v=%d'')) 0 ''v=7'')) (ERef 1) = Return ''v=7''"
  using template_round_trip [of "[]" 0]
  by (simp add: NewFormat_def Wrap_def alloc_def eval_nat_numeral)

section \<open>Formatting with arguments\<close>

lemma plain_store_eq:
  "plain_store =
     [ExObj \<lparr>cause = ENil, data = None, err = ENil, txt' = ''%s error'', fmt = False,
             extra = []\<rparr>]"
  by (simp add: plain_store_def New_def alloc_def)

text \<open>
  C7, as the code has it. \<open>WrapArgs\<close> of errorex.go formats the text of its receiver
  with the arguments whether the receiver is a template or not; the fall-back to
  \<open>Sprint\<close> of the arguments for a receiver that is not a template is what \<open>WrapArgs\<close>
  of the revision of part\_004 does, through \<open>autoformat\<close>. Both return a node, for
  every receiver that is an \<open>ErrorEx\<close> of the store.
\<close>

theorem WrapArgs_formats:
  assumes "deref h n = Some (ExObj x)"
  shows "WrapArgs h n args = Return (Wrap h n (Sprintf (txt' x) args))
       \<and> WrapArgs_p4 h n args
           = Return (Wrap h n (if fmt x then Sprintf (txt' x) args else Sprint args))"
  using assms by (simp add: WrapArgs_def WrapArgs_p4_def autoformat_def)

text \<open>
  C7 as stated fails on errorex.go: \<open>New("%s error").WrapArgs("test")\<close> has the text
  \<open>test error\<close>, where the concatenated arguments are \<open>test\<close>, and renders as
  \<open>%s error: test error\<close>.
\<close>

theorem WrapArgs_formats_counterexample:
  "WrapArgs plain_store 0 [StrV ''test''] = Return (Wrap plain_store 0 ''test error'')
   \<and> Sprint [StrV ''test''] = ''test''
   \<and> Error 3 (fst (Wrap plain_store 0 ''test error'')) (ERef 1)
       = Return ''%s error: test error''"
  by (simp add: plain_store_eq WrapArgs_def Wrap_def alloc_def eval_nat_numeral
      ErrorEx_Error_def base_message_def format_stack_def)

theorem WrapArgs_formats_witness:
  "WrapArgs plain_store 0 [StrV ''test''] = Return (Wrap plain_store 0 ''test error'')
   \<and> WrapArgs_p4 plain_store 0 [StrV ''test''] = Return (Wrap plain_store 0 ''test'')"
proof -
  have "deref plain_store 0 = Some (ExObj \<lparr>cause = ENil, data = None, err = ENil,
      txt' = ''%s error'', fmt = False, extra = []\<rparr>)"
    by (simp add: plain_store_eq)
  from WrapArgs_formats [OF this, of "[StrV ''test'']"] show ?thesis
    by simp
qed

section \<open>Operations that return\<close>








text \<open>
  After \<open>base.Extra(leaf)\<close> with \<open>leaf := base.Wrap("leaf")\<close> the store is cyclic, and
  both nodes render: the extras of \<open>base\<close> are not read when \<open>leaf\<close> walks over it.
\<close>

lemma extra_leaf_store_built:
  "(let (h0, base) = New [] ''base''; (h1, leaf) = Wrap h0 base ''leaf''
    in Extra h1 base (ERef leaf)) = Return extra_leaf_store"
  by (simp add: New_def Wrap_def alloc_def Extra_def extra_leaf_store_def deref_def)




text \<open>
  A nil extra held by a wrapped ancestor only: after \<open>base.Extra(nil)\<close>,
  \<open>base.Wrap("leaf").Error()\<close> returns, and \<open>base.Error()\<close> panics.
\<close>

lemma Error_ancestor_nil_extra:
  "(case Extra (fst (New [] ''base'')) 0 ENil of
      Return h \<Rightarrow> Wrap h 0 ''leaf'' | _ \<Rightarrow> ([], 0)) = (ancestor_nil_extra_store, 1)"
  "Error 3 ancestor_nil_extra_store (ERef 1) = Return ''base: leaf''"
  "Error 3 ancestor_nil_extra_store (ERef 0) = Panic"
  by (simp_all add: New_def Wrap_def alloc_def Extra_def ancestor_nil_extra_store_def
      eval_nat_numeral ErrorEx_Error_def base_message_def format_stack_def)

text \<open>
  After \<open>n.Extra(n)\<close> the node is its own extra and \<open>n.Error()\<close> does not return: it
  runs out of fuel, whatever the fuel.
\<close>

lemma Extra_self: "Extra (fst (New [] ''base'')) 0 (ERef 0) = Return self_extra_store"
  by (simp add: New_def alloc_def Extra_def self_extra_store_def)

lemma Error_self_extra: "Error k self_extra_store (ERef 0) = OutOfFuel"
proof (induction k)
  case 0
  show ?case by simp
next
  case (Suc k)
  show ?case
  proof (cases k)
    case 0
    then show ?thesis
      by (simp add: self_extra_store_def ErrorEx_Error_def base_message_def)
  next
    case (Suc j)
    with Suc.IH show ?thesis
      by (simp add: self_extra_store_def ErrorEx_Error_def base_message_def format_stack_def)
  qed
qed

section \<open>The operations keep the store in order\<close>

text \<open>
  The constructors keep the links in order for the rank \<open>\<lambda>a. a\<close>: a new object holds
  references to objects that exist already.
\<close>

lemma links_ok_alloc:
  assumes "links_ok r h"
    and "case ob of
           ExObj ee \<Rightarrow> edge_ok r h (length h) (err ee) \<and> edge_ok r h (length h) (cause ee)
         | errorString s \<Rightarrow> True
         | wrapError s w \<Rightarrow> edge_ok r h (length h) w"
  shows "links_ok r (fst (alloc h ob))"
  unfolding links_ok_def
proof (intro allI impI)
  fix a assume a: "a < length (fst (alloc h ob))"
  let ?h' = "fst (alloc h ob)"
  show "case ?h' ! a of
          ExObj ee \<Rightarrow> edge_ok r ?h' a (err ee) \<and> edge_ok r ?h' a (cause ee)
        | errorString s \<Rightarrow> True
        | wrapError s w \<Rightarrow> edge_ok r ?h' a w"
  proof (cases "a < length h")
    case True
    from assms(1) [unfolded links_ok_def, rule_format, OF True] True show ?thesis
      by (auto simp: alloc_def nth_append edge_ok_append split: obj.splits)
  next
    case False
    with a have "a = length h" by (simp add: alloc_def)
    with assms(2) show ?thesis
      by (auto simp: alloc_def edge_ok_append split: obj.splits)
  qed
qed

lemma links_ok_Wrap:
  assumes "links_ok (\<lambda>a. a) h" and "n < length h"
  shows "links_ok (\<lambda>a. a) (fst (Wrap h n m))"
  unfolding Wrap_def using assms by (intro links_ok_alloc) (simp_all add: edge_ok_def)

lemma links_ok_WrapCause:
  assumes "links_ok (\<lambda>a. a) h" and "n < length h"
    and "c = ENil \<or> (\<exists>b. c = ERef b \<and> b < length h)"
  shows "links_ok (\<lambda>a. a) (fst (WrapCause h n m c))"
  unfolding WrapCause_def using assms by (intro links_ok_alloc) (auto simp: edge_ok_def)

text \<open>\<open>Extra\<close> changes no link.\<close>

lemma links_ok_Extra:
  assumes "links_ok r h" and "Extra h n e = Return h'"
  shows "links_ok r h'"
proof -
  from assms(2) obtain x where x: "deref h n = Some (ExObj x)"
    and h': "h' = h[n := ExObj (x\<lparr>extra := extra x @ [e]\<rparr>)]"
    by (auto simp: Extra_def split: option.splits obj.splits)
  have n: "n < length h" "h ! n = ExObj x"
    using x by (auto simp: deref_def split: if_splits)
  have edge: "edge_ok r h' a y = edge_ok r h a y" for a y
    by (simp add: edge_ok_def h' split: error.splits)
  show ?thesis
    unfolding links_ok_def
  proof (intro allI impI)
    fix a assume "a < length h'"
    then have a: "a < length h" by (simp add: h')
    from assms(1) [unfolded links_ok_def, rule_format, OF a] n
    show "case h' ! a of
            ExObj ee \<Rightarrow> edge_ok r h' a (err ee) \<and> edge_ok r h' a (cause ee)
          | errorString s \<Rightarrow> True
          | wrapError s w \<Rightarrow> edge_ok r h' a w"
      unfolding edge by (cases "a = n") (simp_all add: h')
  qed
qed

section \<open>Identity and the extras\<close>

lemma errors_Is_extra_update:
  assumes "deref h n = Some (ExObj x)"
  shows "errors_Is k (h[n := ExObj (x\<lparr>extra := xs\<rparr>)]) e t = errors_Is k h e t"
proof (induction k arbitrary: e t)
  case 0
  show ?case by simp
next
  case (Suc k)
  let ?h' = "h[n := ExObj (x\<lparr>extra := xs\<rparr>)]"
  have rec: "errors_Is k ?h' = errors_Is k h"
    using Suc.IH by (intro ext) simp
  have n: "n < length h"
    using assms by (rule deref_Some_length)
  show ?case
  proof (cases e)
    case ENil
    then show ?thesis by simp
  next
    case (ERef a)
    show ?thesis
    proof (cases "a = n")
      case True
      with ERef assms n show ?thesis
        by (simp add: deref_update rec ErrorEx_is_def cong: if_cong)
    next
      case False
      with ERef show ?thesis
        by (simp add: deref_update rec cong: if_cong option.case_cong obj.case_cong)
    qed
  qed
qed

lemma Is_extra_update:
  assumes "deref h n = Some (ExObj x)"
  shows "Is k (h[n := ExObj (x\<lparr>extra := xs\<rparr>)]) a t = Is k h a t"
proof -
  have n: "n < length h"
    using assms by (rule deref_Some_length)
  have rec: "errors_Is k (h[n := ExObj (x\<lparr>extra := xs\<rparr>)]) = errors_Is k h"
    using errors_Is_extra_update [OF assms] by (intro ext) simp
  show ?thesis
    using assms n
    by (simp add: Is_def deref_update rec ErrorEx_is_def split: option.splits obj.splits)
qed

text \<open>
  C9. \<open>Is\<close> does not read the extras. After \<open>n.Extra(e)\<close> every \<open>Is\<close> call, on any
  node and for any target and fuel, gives what it gave before; and \<open>n.Is(e)\<close> is true
  only if \<open>e\<close> is \<open>n\<close> itself or is matched by \<open>errors.Is\<close> through the wrapped error
  or through the cause of \<open>n\<close>, in the store before the append.
\<close>

theorem Is_ignores_extra:
  assumes "deref h n = Some (ExObj x)" and "Extra h n e = Return h'"
  shows "(\<forall>a t. Is k h' a t = Is k h a t)
       \<and> (Is k h' n e = Return True
            \<longrightarrow> e = ERef n \<or> errors_Is k h (err x) e = Return True
                \<or> errors_Is k h (cause x) e = Return True)"
proof -
  have h': "h' = h[n := ExObj (x\<lparr>extra := extra x @ [e]\<rparr>)]"
    using assms by (simp add: Extra_def)
  have frame: "Is k h' a t = Is k h a t" for a t
    unfolding h' by (rule Is_extra_update [OF assms(1)])
  have "e = ERef n \<or> errors_Is k h (err x) e = Return True
          \<or> errors_Is k h (cause x) e = Return True"
    if "Is k h n e = Return True"
    using that assms(1)
    by (auto simp: Is_def ErrorEx_is_def and_then_Return_eq split: if_splits)
  with frame show ?thesis by simp
qed

lemma wrap_pair_eq:
  "wrap_pair =
     [ExObj \<lparr>cause = ENil, data = None, err = ENil, txt' = ''base'', fmt = False, extra = []\<rparr>,
      ExObj \<lparr>cause = ENil, data = None, err = ERef 0, txt' = ''node'', fmt = False, extra = []\<rparr>]"
  by (simp add: wrap_pair_def New_def Wrap_def alloc_def)

text \<open>
  With \<open>base := New("base")\<close> and \<open>node := base.Wrap("node")\<close>: after
  \<open>node.Extra(base)\<close> the call \<open>node.Is(base)\<close> is true as it was before, through the
  wrapped error.
\<close>

theorem Is_ignores_extra_witness:
  "Extra wrap_pair 1 (ERef 0)
     = Return (wrap_pair[1 := ExObj \<lparr>cause = ENil, data = None, err = ERef 0, txt' = ''node'',
                                     fmt = False, extra = [ERef 0]\<rparr>])
   \<and> Is 3 (wrap_pair[1 := ExObj \<lparr>cause = ENil, data = None, err = ERef 0, txt' = ''node'',
                                     fmt = False, extra = [ERef 0]\<rparr>]) 1 (ERef 0)
       = Is 3 wrap_pair 1 (ERef 0)
   \<and> Is 3 wrap_pair 1 (ERef 0) = Return True
   \<and> errors_Is 3 wrap_pair (ERef 0) (ERef 0) = Return True"
proof -
  let ?x = "\<lparr>cause = ENil, data = None, err = ERef 0, txt' = ''node'', fmt = False,
             extra = []\<rparr>"
  let ?h' = "wrap_pair[1 := ExObj (?x\<lparr>extra := extra ?x @ [ERef 0]\<rparr>)]"
  have 1: "deref wrap_pair 1 = Some (ExObj ?x)"
    by (simp add: wrap_pair_eq)
  have 2: "Extra wrap_pair 1 (ERef 0) = Return ?h'"
    using 1 by (simp add: Extra_def)
  have 3: "Is 3 wrap_pair 1 (ERef 0) = Return True"
    using 1 by (simp add: Is_def ErrorEx_is_def eval_nat_numeral wrap_pair_eq)
  show ?thesis
    using Is_ignores_extra [OF 1 2, of 3] 2 3
    by (simp add: eval_nat_numeral)
qed

section \<open>A nil cause\<close>

text \<open>
  C10. \<open>n.WrapCause(m, nil)\<close> allocates the node that \<open>n.Wrap(m)\<close> allocates: its
  \<open>Cause\<close> is nil, and \<open>Error\<close> and \<open>Is\<close> give on it what they give on \<open>n.Wrap(m)\<close>, for
  every fuel and target.
\<close>

theorem WrapCause_nil:
  "(let (h1, a1) = WrapCause h n m ENil; (h2, a2) = Wrap h n m
    in (h1, a1) = (h2, a2)
     \<and> Cause h1 a1 = Return ENil
     \<and> Error k h1 (ERef a1) = Error k h2 (ERef a2)
     \<and> (\<forall>t. Is k h1 a1 t = Is k h2 a2 t))"
  by (simp add: WrapCause_def Wrap_def alloc_def Cause_def)

theorem WrapCause_nil_witness:
  "WrapCause wrap_pair 1 ''m'' ENil = Wrap wrap_pair 1 ''m''
   \<and> Cause (fst (WrapCause wrap_pair 1 ''m'' ENil)) 2 = Return ENil
   \<and> Error 4 (fst (WrapCause wrap_pair 1 ''m'' ENil)) (ERef 2) = Return ''base: node > m''
   \<and> Error 4 (fst (Wrap wrap_pair 1 ''m'')) (ERef 2) = Return ''base: node > m''
   \<and> Is 4 (fst (WrapCause wrap_pair 1 ''m'' ENil)) 2 (ERef 0) = Return True
   \<and> Is 4 (fst (Wrap wrap_pair 1 ''m'')) 2 (ERef 0) = Return True"
proof -
  have "Error 4 (fst (Wrap wrap_pair 1 ''m'')) (ERef 2) = Return ''base: node > m''"
    by (simp add: wrap_pair_eq Wrap_def alloc_def eval_nat_numeral ErrorEx_Error_def
        base_message_def format_stack_def)
  moreover have "Is 4 (fst (Wrap wrap_pair 1 ''m'')) 2 (ERef 0) = Return True"
    by (simp add: wrap_pair_eq Wrap_def alloc_def eval_nat_numeral Is_def ErrorEx_is_def)
  ultimately show ?thesis
    using WrapCause_nil [of wrap_pair 1 "''m''" 4]
    by (simp add: Wrap_def WrapCause_def alloc_def wrap_pair_eq eval_nat_numeral)
qed

end
